theory Spec2Isabelle
  imports Main
begin

section \<open>Eternal Chess: the game loop, the result recorder and the statistics\<close>

text \<open>
  The service (\<^verbatim>\<open>eternal_chess.py\<close>) plays random games of chess for ever. One call of
  \<^verbatim>\<open>play_chess\<close> is one tick of the loop; it works on a \<^verbatim>\<open>chess.Board\<close> of the
  python-chess library, on the sqlite table \<^verbatim>\<open>chess_game\<close> and on the socket that
  carries events to the browsers. The model passes all three explicitly.
\<close>

subsection \<open>Exceptions\<close>

datatype error = StorageError | TypeError | IndexError | ValueError

definition bind :: "'e + 'a \<Rightarrow> ('a \<Rightarrow> 'e + 'b) \<Rightarrow> 'e + 'b" where
  "bind m f = (case m of Inl e \<Rightarrow> Inl e | Inr x \<Rightarrow> f x)"

subsection \<open>The board of the chess library\<close>

text \<open>
  python-chess is not part of the repository. Of a \<^verbatim>\<open>chess.Board\<close> the model keeps the
  attributes the service reads or that decide them: the side to move, the full-move
  number and the stack of moves played; the pieces, castling rights and clocks stay an
  opaque value of type \<open>'p\<close>. What the library computes from the rules of chess is a
  parameter, a record of functions named after the library's methods.
\<close>

datatype color = White | Black

record ('p, 'm) board =
  placement :: 'p
  turn :: color
  fullmove_number :: int
  move_stack :: "'m list"

record ('p, 'm) rules =
  starting :: 'p
  moved :: "'p \<Rightarrow> 'm \<Rightarrow> 'p"
  legal_moves :: "('p, 'm) board \<Rightarrow> 'm list"
  is_game_over :: "('p, 'm) board \<Rightarrow> bool"
  result :: "('p, 'm) board \<Rightarrow> string"
  fen :: "('p, 'm) board \<Rightarrow> string"
  from_board :: "('p, 'm) board \<Rightarrow> (string \<times> string) list \<Rightarrow> string"

text \<open>
  \<^verbatim>\<open>Board.reset()\<close> restores the starting position: White to move, full-move number 1,
  an empty move stack. \<^verbatim>\<open>Board.push(move)\<close> plays a move without checking that it is
  legal: it puts the move on the stack, increments the full-move number when Black has
  moved, and passes the turn.
\<close>

definition reset :: "('p, 'm) rules \<Rightarrow> ('p, 'm) board \<Rightarrow> ('p, 'm) board" where
  "reset e b = b\<lparr>placement := starting e, turn := White, fullmove_number := 1, move_stack := []\<rparr>"

definition push :: "('p, 'm) rules \<Rightarrow> ('p, 'm) board \<Rightarrow> 'm \<Rightarrow> ('p, 'm) board" where
  "push e b m =
     b\<lparr>placement := moved e (placement b) m,
       move_stack := move_stack b @ [m],
       fullmove_number := (if turn b = Black then fullmove_number b + 1 else fullmove_number b),
       turn := (if turn b = White then Black else White)\<rparr>"

subsection \<open>The table \<^verbatim>\<open>chess_game\<close> and its queries\<close>

text \<open>
  A row holds the five columns that \<^verbatim>\<open>insert_chess_game\<close> supplies; the table is the
  list of its rows, oldest first. A value that a query returns is an integer or NULL.
\<close>

record chess_game =
  completion_date :: string
  is_draw :: int
  n_moves :: int
  winner :: "string option"
  pgn :: string

type_synonym sql_value = "int option"

text \<open>
  The aggregate queries of the service. Each returns one row of one column, on an empty
  table too: \<^verbatim>\<open>COUNT(*)\<close> is then 0 and \<^verbatim>\<open>TOTAL(n_moves)\<close> is 0.0, never NULL (the
  float that \<^verbatim>\<open>TOTAL\<close> returns is read as the integer that \<^verbatim>\<open>int\<close> makes of it).
\<close>

definition select_count :: "(chess_game \<Rightarrow> bool) \<Rightarrow> chess_game list \<Rightarrow> sql_value list list" where
  "select_count P db = [[Some (int (length (filter P db)))]]"

definition select_total :: "(chess_game \<Rightarrow> int) \<Rightarrow> chess_game list \<Rightarrow> sql_value list list" where
  "select_total col db = [[Some (sum_list (map col db))]]"

text \<open>\<^verbatim>\<open>query_db(query, one=True)\<close>: the first row fetched, or \<^verbatim>\<open>None\<close>.\<close>

definition query_db :: "sql_value list list \<Rightarrow> sql_value list option" where
  "query_db rs = (case rs of [] \<Rightarrow> None | r # _ \<Rightarrow> Some r)"

text \<open>The subscript \<^verbatim>\<open>[0]\<close> on what \<^verbatim>\<open>query_db\<close> returned, and Python's \<^verbatim>\<open>int\<close>.\<close>

definition item0 :: "sql_value list option \<Rightarrow> error + sql_value" where
  "item0 r = (case r of None \<Rightarrow> Inl TypeError | Some [] \<Rightarrow> Inl IndexError | Some (v # _) \<Rightarrow> Inr v)"

definition py_int :: "sql_value \<Rightarrow> error + int" where
  "py_int v = (case v of None \<Rightarrow> Inl TypeError | Some n \<Rightarrow> Inr n)"

definition get_n_of_games :: "chess_game list \<Rightarrow> error + int" where
  "get_n_of_games db = bind (item0 (query_db (select_count (\<lambda>r. True) db))) py_int"

definition get_n_white_wins :: "chess_game list \<Rightarrow> error + int" where
  "get_n_white_wins db =
     bind (item0 (query_db (select_count (\<lambda>r. winner r = Some ''white'') db))) py_int"

definition get_n_black_wins :: "chess_game list \<Rightarrow> error + int" where
  "get_n_black_wins db =
     bind (item0 (query_db (select_count (\<lambda>r. winner r = Some ''black'') db))) py_int"

definition get_n_draws :: "chess_game list \<Rightarrow> error + int" where
  "get_n_draws db = bind (item0 (query_db (select_count (\<lambda>r. is_draw r = 1) db))) py_int"

definition get_total_moves :: "chess_game list \<Rightarrow> error + int" where
  "get_total_moves db = bind (item0 (query_db (select_total n_moves db))) py_int"

text \<open>
  \<^verbatim>\<open>exec_db\<close> executes and commits a statement. Whether sqlite accepts the write is
  decided outside the program: the flag \<open>ok\<close> is that decision, and a refused write
  raises and leaves the table as it was.
\<close>

definition exec_db :: "bool \<Rightarrow> chess_game \<Rightarrow> chess_game list \<Rightarrow> error + chess_game list" where
  "exec_db ok row db = (if ok then Inr (db @ [row]) else Inl StorageError)"

definition insert_chess_game ::
  "bool \<Rightarrow> string \<Rightarrow> int \<Rightarrow> int \<Rightarrow> string option \<Rightarrow> string \<Rightarrow> chess_game list
     \<Rightarrow> error + chess_game list" where
  "insert_chess_game ok completion_date' is_draw' n_moves' winner' pgn' db =
     exec_db ok
       \<lparr>completion_date = completion_date', is_draw = is_draw', n_moves = n_moves',
        winner = winner', pgn = pgn'\<rparr> db"

subsection \<open>The statistics\<close>

record state =
  n_games :: int
  n_white_wins :: int
  n_black_wins :: int
  n_draws :: int
  n_total_moves :: int

text \<open>
  \<^verbatim>\<open>get_state\<close> builds the dictionary of the five counters, in this order; the key
  \<^verbatim>\<open>'n_moves'\<close> of the dictionary is the field \<open>n_total_moves\<close> here.
\<close>

definition get_state :: "chess_game list \<Rightarrow> error + state" where
  "get_state db =
     bind (get_n_of_games db) (\<lambda>g.
     bind (get_n_white_wins db) (\<lambda>w.
     bind (get_n_black_wins db) (\<lambda>b.
     bind (get_n_draws db) (\<lambda>d.
     bind (get_total_moves db) (\<lambda>t.
       Inr \<lparr>n_games = g, n_white_wins = w, n_black_wins = b, n_draws = d,
            n_total_moves = t\<rparr>)))))"

subsection \<open>The result recorder\<close>

text \<open>Python's \<^verbatim>\<open>str\<close> on an integer: its decimal digits, after a minus sign if negative.\<close>

fun digits :: "nat \<Rightarrow> string" where
  "digits n =
     (if n < 10 then [char_of (48 + n)] else digits (n div 10) @ [char_of (48 + n mod 10)])"

definition str :: "int \<Rightarrow> string" where
  "str i = (if i < 0 then CHR ''-'' # digits (nat (- i)) else digits (nat i))"

text \<open>
  What a tick takes from outside the program: the two readings of the clock (already
  formatted by \<^verbatim>\<open>DATE_FORMAT\<close>), whether sqlite accepts the insert, and the state of the
  random source.
\<close>

record env =
  now_record :: string
  now_pgn :: string
  store_ok :: bool
  seed :: nat

definition configure_pgn ::
  "('p, 'm) rules \<Rightarrow> env \<Rightarrow> ('p, 'm) board \<Rightarrow> chess_game list \<Rightarrow> error + string" where
  "configure_pgn e env b db =
     bind (get_n_of_games db) (\<lambda>n.
       Inr (from_board e b
         [(''Event'', ''Eternal Chess''), (''Site'', ''www.eternalchess.com''),
          (''Date'', now_pgn env), (''Round'', str (n + 1)),
          (''White'', ''Random''), (''Black'', ''Random'')]))"

definition record_result ::
  "('p, 'm) rules \<Rightarrow> env \<Rightarrow> ('p, 'm) board \<Rightarrow> chess_game list \<Rightarrow> error + chess_game list" where
  "record_result e env b db =
     (let completion_date' = now_record env;
          is_draw' = (if result e b = ''1/2-1/2'' then 1 else 0);
          n_moves' = fullmove_number b;
          winner' = (if result e b = ''1-0'' then Some ''white'' else Some ''black'');
          winner'' = (if is_draw' \<noteq> (0::int) then None else winner')
      in bind (configure_pgn e env b db) (\<lambda>pgn'.
           insert_chess_game (store_ok env) completion_date' is_draw' n_moves' winner'' pgn' db))"

subsection \<open>The tick\<close>

text \<open>
  \<^verbatim>\<open>randint(a, b)\<close> raises on an empty range and otherwise returns a number from \<open>a\<close> to
  \<open>b\<close>, here the one the random source's state selects. \<^verbatim>\<open>moves[i]\<close> raises when the
  index is out of range; a negative index counts from the end.
\<close>

definition randint :: "nat \<Rightarrow> int \<Rightarrow> int \<Rightarrow> error + int" where
  "randint r a b = (if b < a then Inl ValueError else Inr (a + int r mod (b - a + 1)))"

definition getitem :: "'a list \<Rightarrow> int \<Rightarrow> error + 'a" where
  "getitem xs i =
     (if 0 \<le> i \<and> i < int (length xs) then Inr (xs ! nat i)
      else if i < 0 \<and> - int (length xs) \<le> i then Inr (xs ! nat (int (length xs) + i))
      else Inl IndexError)"

text \<open>
  The world of a tick: the board, the table, the events emitted so far (oldest first) and
  the number of timers started so far. \<^verbatim>\<open>play_chess\<close> returns the new world; when an
  exception leaves it, the result is the exception with the world as it then is.
\<close>

datatype event = game_over state | move string

record ('p, 'm) world =
  board :: "('p, 'm) board"
  table :: "chess_game list"
  emitted :: "event list"
  timers :: nat

definition play_chess ::
  "('p, 'm) rules \<Rightarrow> env \<Rightarrow> ('p, 'm) world \<Rightarrow> (error \<times> ('p, 'm) world) + ('p, 'm) world" where
  "play_chess e env w =
     (case (if is_game_over e (board w)
            then (case record_result e env (board w) (table w) of
                    Inl x \<Rightarrow> Inl (x, w)
                  | Inr db' \<Rightarrow>
                      (case get_state db' of
                         Inl x \<Rightarrow> Inl (x, w\<lparr>table := db'\<rparr>)
                       | Inr s \<Rightarrow>
                           Inr (w\<lparr>table := db', emitted := emitted w @ [game_over s],
                                  board := reset e (board w)\<rparr>)))
            else Inr w) of
        Inl xw \<Rightarrow> Inl xw
      | Inr w1 \<Rightarrow>
          (let moves = legal_moves e (board w1) in
           case bind (randint (seed env) 0 (int (length moves) - 1)) (getitem moves) of
             Inl x \<Rightarrow> Inl (x, w1)
           | Inr m \<Rightarrow>
               (let b' = push e (board w1) m in
                Inr (w1\<lparr>board := b', emitted := emitted w1 @ [move (fen e b')],
                        timers := timers w1 + 1\<rparr>))))"

subsection \<open>Notions used in the statements\<close>

text \<open>
  \<^verbatim>\<open>chess.Board()\<close>, the board the service starts with, and the board after a list of
  moves has been pushed on it.
\<close>

definition new_board :: "('p, 'm) rules \<Rightarrow> ('p, 'm) board" where
  "new_board e = \<lparr>placement = starting e, turn = White, fullmove_number = 1, move_stack = []\<rparr>"

definition played :: "('p, 'm) rules \<Rightarrow> 'm list \<Rightarrow> ('p, 'm) board" where
  "played e ms = foldl (push e) (new_board e) ms"

text \<open>The row that \<^verbatim>\<open>record_result\<close> hands to the insert, written out.\<close>

definition game_row ::
  "('p, 'm) rules \<Rightarrow> env \<Rightarrow> ('p, 'm) board \<Rightarrow> chess_game list \<Rightarrow> chess_game" where
  "game_row e env b db =
     \<lparr>completion_date = now_record env,
      is_draw = (if result e b = ''1/2-1/2'' then 1 else 0),
      n_moves = fullmove_number b,
      winner = (if result e b = ''1/2-1/2'' then None
                else if result e b = ''1-0'' then Some ''white'' else Some ''black''),
      pgn = from_board e b
         [(''Event'', ''Eternal Chess''), (''Site'', ''www.eternalchess.com''),
          (''Date'', now_pgn env), (''Round'', str (int (length db) + 1)),
          (''White'', ''Random''), (''Black'', ''Random'')]\<rparr>"

text \<open>The five counters, as the queries compute them from the rows.\<close>

definition snapshot :: "chess_game list \<Rightarrow> state" where
  "snapshot db =
     \<lparr>n_games = int (length db),
      n_white_wins = int (length (filter (\<lambda>r. winner r = Some ''white'') db)),
      n_black_wins = int (length (filter (\<lambda>r. winner r = Some ''black'') db)),
      n_draws = int (length (filter (\<lambda>r. is_draw r = 1) db)),
      n_total_moves = sum_list (map n_moves db)\<rparr>"

text \<open>A row falls in one category: a draw with no winner, or a win of White or of Black.\<close>

definition categorised :: "chess_game \<Rightarrow> bool" where
  "categorised r =
     (if is_draw r = 1 then winner r = None
      else winner r = Some ''white'' \<or> winner r = Some ''black'')"

text \<open>The element of a non-empty list that the random source's state \<open>r\<close> selects.\<close>

definition pick :: "nat \<Rightarrow> 'a list \<Rightarrow> 'a" where
  "pick r ms = ms ! (r mod length ms)"

text \<open>
  The recorder called for a list of games, one after the other, on a table; a refused
  insert leaves the table as it is.
\<close>

fun record_all ::
  "('p, 'm) rules \<Rightarrow> (env \<times> ('p, 'm) board) list \<Rightarrow> chess_game list \<Rightarrow> chess_game list" where
  "record_all e [] db = db"
| "record_all e ((env, b) # gs) db =
     (case record_result e env b db of
        Inl x \<Rightarrow> record_all e gs db
      | Inr db' \<Rightarrow> record_all e gs db')"

subsection \<open>A fragment of chess for the examples\<close>

text \<open>
  The examples need the answers of the chess library on two boards only: the starting
  position, where the game is not over and White has twenty moves, and the position
  after the fool's mate 1. f3 e5 2. g4 Qh4, where White is checkmated, the game is over
  and its result is \<^verbatim>\<open>0-1\<close>. The fragment tabulates these answers. A position is named
  by the moves that lead to it, in the notation of the UCI protocol, which also stands
  for the texts of the position and of the game. On every other board the fragment knows
  no move and no result; no example consults it there.
\<close>

definition opening_moves :: "string list" where
  "opening_moves =
     [''g1h3'', ''g1f3'', ''b1c3'', ''b1a3'', ''h2h3'', ''g2g3'', ''f2f3'', ''e2e3'',
      ''d2d3'', ''c2c3'', ''b2b3'', ''a2a3'', ''h2h4'', ''g2g4'', ''f2f4'', ''e2e4'',
      ''d2d4'', ''c2c4'', ''b2b4'', ''a2a4'']"

definition fools_mate :: "string list" where
  "fools_mate = [''f2f3'', ''e7e5'', ''g2g4'', ''d8h4'']"

definition uci :: "string list \<Rightarrow> string" where
  "uci p = ''startpos moves'' @ concat (map (\<lambda>m. CHR '' '' # m) p)"

definition fragment :: "(string list, string) rules" where
  "fragment =
     \<lparr>starting = [],
      moved = (\<lambda>p m. p @ [m]),
      legal_moves = (\<lambda>b. if placement b = [] then opening_moves else []),
      is_game_over = (\<lambda>b. placement b = fools_mate),
      result = (\<lambda>b. if placement b = fools_mate then ''0-1'' else ''*''),
      fen = (\<lambda>b. uci (placement b)),
      from_board =
        (\<lambda>b hs. concat (map (\<lambda>(k, v). k @ '': '' @ v @ ''; '') hs) @ uci (placement b))\<rparr>"

definition mated_board :: "(string list, string) board" where
  "mated_board = played fragment fools_mate"

definition mated_world :: "(string list, string) world" where
  "mated_world = \<lparr>board = mated_board, table = [], emitted = [], timers = 0\<rparr>"

definition new_world :: "(string list, string) world" where
  "new_world = \<lparr>board = new_board fragment, table = [], emitted = [], timers = 0\<rparr>"

definition noon :: "bool \<Rightarrow> nat \<Rightarrow> env" where
  "noon ok r =
     \<lparr>now_record = ''2015-06-01 12:00:00'', now_pgn = ''2015-06-01 12:00:00'',
      store_ok = ok, seed = r\<rparr>"

section \<open>Properties\<close>

subsection \<open>What the queries, the recorder and the tick compute\<close>

lemma get_n_of_games_eq: "get_n_of_games db = Inr (int (length db))"
  by (simp add: get_n_of_games_def select_count_def query_db_def item0_def py_int_def bind_def)

lemma get_state_eq: "get_state db = Inr (snapshot db)"
  by (simp add: get_state_def get_n_of_games_def get_n_white_wins_def get_n_black_wins_def
      get_n_draws_def get_total_moves_def select_count_def select_total_def query_db_def
      item0_def py_int_def bind_def snapshot_def)

lemma record_result_eq:
  "record_result e env b db =
     (if store_ok env then Inr (db @ [game_row e env b db]) else Inl StorageError)"
  by (simp add: record_result_def configure_pgn_def get_n_of_games_eq bind_def
      insert_chess_game_def exec_db_def game_row_def Let_def)

lemma select_eq:
  "ms \<noteq> [] \<Longrightarrow> bind (randint r 0 (int (length ms) - 1)) (getitem ms) = Inr (pick r ms)"
  by (simp add: randint_def getitem_def bind_def pick_def zmod_int nat_mod_distrib)

lemma pick_mem: "ms \<noteq> [] \<Longrightarrow> pick r ms \<in> set ms"
  by (simp add: pick_def)

lemma play_chess_running:
  assumes "\<not> is_game_over e (board w)" and "legal_moves e (board w) \<noteq> []"
  shows "play_chess e env w =
     Inr (w\<lparr>board := push e (board w) (pick (seed env) (legal_moves e (board w))),
            emitted := emitted w @
              [move (fen e (push e (board w) (pick (seed env) (legal_moves e (board w)))))],
            timers := timers w + 1\<rparr>)"
  using assms by (simp add: play_chess_def select_eq Let_def)

lemma play_chess_refused:
  assumes "is_game_over e (board w)" and "\<not> store_ok env"
  shows "play_chess e env w = Inl (StorageError, w)"
  using assms by (simp add: play_chess_def record_result_eq)

lemma play_chess_finalizing:
  assumes "is_game_over e (board w)" and "store_ok env"
    and "legal_moves e (reset e (board w)) \<noteq> []"
  shows "play_chess e env w =
     Inr (w\<lparr>table := table w @ [game_row e env (board w) (table w)],
            emitted := emitted w @
              [game_over (snapshot (table w @ [game_row e env (board w) (table w)])),
               move (fen e (push e (reset e (board w))
                       (pick (seed env) (legal_moves e (reset e (board w))))))],
            board := push e (reset e (board w))
                       (pick (seed env) (legal_moves e (reset e (board w)))),
            timers := timers w + 1\<rparr>)"
  using assms by (simp add: play_chess_def record_result_eq get_state_eq select_eq Let_def)

lemma reset_new: "reset e (b :: ('p, 'm) board) = new_board e"
  by (cases b) (simp add: reset_def new_board_def)

lemma played_snoc: "played e (ms @ [m]) = push e (played e ms) m"
  by (simp add: played_def)

lemma played_counters:
  "move_stack (played e ms) = ms \<and>
   turn (played e ms) = (if even (length ms) then White else Black) \<and>
   fullmove_number (played e ms) = 1 + int (length ms) div 2"
proof (induction ms rule: rev_induct)
  case Nil
  show ?case by (simp add: played_def new_board_def)
next
  case (snoc m ms)
  then show ?case
    by (auto simp: played_snoc push_def elim!: evenE oddE)
qed

lemma play_chess_Inr_over:
  assumes "is_game_over e (board w)" and "play_chess e env w = Inr w'"
  shows "store_ok env \<and> legal_moves e (reset e (board w)) \<noteq> []"
proof -
  have ok: "store_ok env"
    using assms by (cases "store_ok env") (simp_all add: play_chess_refused)
  have "legal_moves e (reset e (board w)) \<noteq> []"
  proof
    assume "legal_moves e (reset e (board w)) = []"
    then have "\<exists>xw. play_chess e env w = Inl xw"
      using assms(1) ok
      by (simp add: play_chess_def record_result_eq get_state_eq randint_def bind_def Let_def)
    with assms(2) show False by auto
  qed
  with ok show ?thesis by simp
qed

lemma categorised_row: "categorised (game_row e env b db)"
  by (simp add: categorised_def game_row_def)

lemma categorised_sum:
  "list_all categorised db \<Longrightarrow>
   length db =
     length (filter (\<lambda>r. winner r = Some ''white'') db) +
     length (filter (\<lambda>r. winner r = Some ''black'') db) +
     length (filter (\<lambda>r. is_draw r = 1) db)"
  by (induction db) (auto simp: categorised_def split: if_splits)

lemma record_all_categorised:
  "list_all categorised db \<Longrightarrow> list_all categorised (record_all e gs db)"
proof (induction gs arbitrary: db)
  case Nil
  then show ?case by simp
next
  case (Cons g gs)
  obtain env b where g: "g = (env, b)" by (cases g)
  show ?case
  proof (cases "store_ok env")
    case True
    have "list_all categorised (db @ [game_row e env b db])"
      using Cons.prems by (simp add: categorised_row)
    then have "list_all categorised (record_all e gs (db @ [game_row e env b db]))"
      by (rule Cons.IH)
    then show ?thesis by (simp add: g record_result_eq True)
  next
    case False
    then show ?thesis using Cons by (simp add: g record_result_eq)
  qed
qed

lemma randint_in_range:
  "ms \<noteq> [] \<Longrightarrow> randint r 0 (int (length ms) - 1) = Inr (int (r mod length ms))"
  by (simp add: randint_def zmod_int)

lemma getitem_in_range: "i < length ms \<Longrightarrow> getitem ms (int i) = Inr (ms ! i)"
  by (simp add: getitem_def)

text \<open>The fragment at the two boards of the examples.\<close>

lemma mated_board_eq:
  "mated_board =
     \<lparr>placement = [''f2f3'', ''e7e5'', ''g2g4'', ''d8h4''], turn = White, fullmove_number = 3,
      move_stack = [''f2f3'', ''e7e5'', ''g2g4'', ''d8h4'']\<rparr>"
  by (simp add: mated_board_def played_def new_board_def push_def fragment_def fools_mate_def)

lemma fragment_over: "is_game_over fragment mated_board"
  by (simp add: mated_board_eq fragment_def fools_mate_def)

lemma fragment_result: "result fragment mated_board = ''0-1''"
  by (simp add: mated_board_eq fragment_def fools_mate_def)

lemma fragment_reset: "legal_moves fragment (reset fragment b) = opening_moves"
  by (simp add: fragment_def reset_def)

lemma fragment_new:
  "\<not> is_game_over fragment (new_board fragment) \<and>
   legal_moves fragment (new_board fragment) = opening_moves"
  by (simp add: fragment_def new_board_def fools_mate_def)

lemma opening_ne: "opening_moves \<noteq> []"
  by (simp add: opening_moves_def)

lemma opening_pick0: "pick 0 opening_moves = ''g1h3''"
  by (simp add: pick_def opening_moves_def)

lemma opening_pick15: "pick 15 opening_moves = ''e2e4''"
  by (simp add: pick_def opening_moves_def)

lemma mated_tick:
  "play_chess fragment (noon True r) mated_world =
     Inr \<lparr>board =
            \<lparr>placement = [pick r opening_moves], turn = Black, fullmove_number = 1,
             move_stack = [pick r opening_moves]\<rparr>,
          table = [game_row fragment (noon True r) mated_board []],
          emitted =
            [game_over
               \<lparr>n_games = 1, n_white_wins = 0, n_black_wins = 1, n_draws = 0,
                n_total_moves = 3\<rparr>,
             move (uci [pick r opening_moves])],
          timers = 1\<rparr>"
proof -
  have over: "is_game_over fragment (board mated_world)"
    by (simp add: mated_world_def fragment_over)
  have ok: "store_ok (noon True r)"
    by (simp add: noon_def)
  have ne: "legal_moves fragment (reset fragment (board mated_world)) \<noteq> []"
    by (simp add: fragment_reset opening_ne)
  have row: "winner (game_row fragment (noon True r) mated_board []) = Some ''black'' \<and>
             is_draw (game_row fragment (noon True r) mated_board []) = 0 \<and>
             n_moves (game_row fragment (noon True r) mated_board []) = 3"
    by (simp add: game_row_def fragment_result) (simp add: mated_board_eq)
  have b: "push fragment (reset fragment mated_board) m =
        \<lparr>placement = [m], turn = Black, fullmove_number = 1, move_stack = [m]\<rparr>" for m
    by (simp add: push_def reset_def mated_board_eq fragment_def)
  show ?thesis
    unfolding play_chess_finalizing [OF over ok ne]
    by (simp add: mated_world_def fragment_reset b snapshot_def row) (simp add: fragment_def noon_def)
qed

lemma noon_seed: "(noon ok r)\<lparr>seed := k\<rparr> = noon ok k"
  by (simp add: noon_def)

lemma opening_distinct: "distinct opening_moves \<and> length opening_moves = 20"
  by (simp add: opening_moves_def)

lemma opening_nth15: "opening_moves ! 15 = ''e2e4''"
  by (simp add: opening_moves_def)

subsection \<open>A refused insert\<close>

text \<open>
  C1 (as the code has it). When the game on the board is over and sqlite refuses the
  insert, the exception leaves the tick: \<^verbatim>\<open>play_chess\<close> has no handler. The world is
  then as it was before the tick: the board is not reset, no row is written, no event is
  emitted and no timer is started, so no further tick follows.
\<close>

theorem play_chess_insert_refused:
  assumes "is_game_over e (board w)" and "\<not> store_ok env"
  shows "play_chess e env w = Inl (StorageError, w)"
  using assms by (rule play_chess_refused)

theorem play_chess_insert_refused_witness:
  "is_game_over fragment (board mated_world) \<and> \<not> store_ok (noon False 7) \<and>
   play_chess fragment (noon False 7) mated_world = Inl (StorageError, mated_world)"
proof -
  have over: "is_game_over fragment (board mated_world)"
    by (simp add: mated_world_def fragment_over)
  have refused: "\<not> store_ok (noon False 7)"
    by (simp add: noon_def)
  from play_chess_insert_refused [OF over refused] over refused show ?thesis
    by simp
qed

text \<open>
  The claim as the specification words it fails on the fool's mate: the tick does not
  return a world with a fresh board and one more timer, it raises, and the board it
  leaves is the board of the finished game, with no timer started.
\<close>

theorem play_chess_insert_refused_counterexample:
  "play_chess fragment (noon False 0) mated_world =
     Inl (StorageError,
       \<lparr>board =
          \<lparr>placement = [''f2f3'', ''e7e5'', ''g2g4'', ''d8h4''], turn = White,
           fullmove_number = 3, move_stack = [''f2f3'', ''e7e5'', ''g2g4'', ''d8h4'']\<rparr>,
        table = [], emitted = [], timers = 0\<rparr>)"
proof -
  have "play_chess fragment (noon False 0) mated_world = Inl (StorageError, mated_world)"
    by (rule play_chess_refused) (simp_all add: mated_world_def fragment_over noon_def)
  then show ?thesis
    by (simp add: mated_world_def mated_board_eq)
qed

subsection \<open>The number of moves that is recorded\<close>

text \<open>
  The recorder stores the full-move number of the board in the column \<^verbatim>\<open>n_moves\<close>. The
  library starts that number at 1 and increments it after each move of Black, so it is
  the number of the full move to come. For a game of \<open>k\<close> plies played from the
  starting position it is \<open>1 + k div 2\<close>: fewer than the plies from the third ply on,
  and, when Black has made the last move, one more than the \<open>k div 2\<close> full moves made.
\<close>

lemma record_result_fullmove_number:
  assumes "record_result e env (played e ms) db = Inr db'"
  shows "move_stack (played e ms) = ms \<and> db' = db @ [last db'] \<and>
         n_moves (last db') = 1 + int (length ms) div 2"
  using assms played_counters [of e ms]
  by (auto simp: record_result_eq game_row_def split: if_splits)

lemma record_result_not_plies:
  assumes "record_result e env (played e ms) db = Inr db'"
  shows "(3 \<le> length ms \<longrightarrow> n_moves (last db') < int (length ms)) \<and>
         (even (length ms) \<longrightarrow> n_moves (last db') = int (length ms) div 2 + 1)"
  using record_result_fullmove_number [OF assms] by auto

text \<open>
  C2. The row of a finished game is to hold the number of its plies. It does not: the
  fool's mate 1. f3 e5 2. g4 Qh4 has four plies, two moves of each side, and the recorder
  writes the row of its board with \<^verbatim>\<open>n_moves\<close> 3. That is neither the four plies nor
  the two full moves made, the two readings of the \<^verbatim>\<open>number of chess moves made\<close> that
  the docstring of \<^verbatim>\<open>get_total_moves\<close> promises.
\<close>

theorem record_result_n_moves_fools_mate:
  "move_stack mated_board = [''f2f3'', ''e7e5'', ''g2g4'', ''d8h4''] \<and>
   length (move_stack mated_board) = 4 \<and>
   map n_moves (case record_result fragment (noon True 0) mated_board [] of
       Inl x \<Rightarrow> [] | Inr db' \<Rightarrow> db') = [3]"
  by (simp add: record_result_eq game_row_def noon_def mated_board_eq)

subsection \<open>The two branches of a tick\<close>

text \<open>
  C3 (as the code has it). Let the board on which the tick selects its move have a legal
  move. If the game on the board is over and sqlite accepts the insert, the tick records
  the result, emits a \<^verbatim>\<open>game_over\<close> event with the statistics, resets the board, and
  then, in the same tick, selects and pushes one legal move of the fresh board and emits
  a \<^verbatim>\<open>move\<close> event. If the game is not over, the tick selects and pushes exactly one
  legal move and emits a \<^verbatim>\<open>move\<close> event; it writes no row and does not reset the board.
  Either way it starts one timer.
\<close>

theorem play_chess_branches:
  assumes "legal_moves e (if is_game_over e (board w) then reset e (board w) else board w) \<noteq> []"
  shows "(is_game_over e (board w) \<and> store_ok env \<longrightarrow>
            (\<exists>m \<in> set (legal_moves e (reset e (board w))).
               play_chess e env w =
                 Inr \<lparr>board = push e (reset e (board w)) m,
                      table = table w @ [game_row e env (board w) (table w)],
                      emitted = emitted w @
                        [game_over (snapshot (table w @ [game_row e env (board w) (table w)])),
                         move (fen e (push e (reset e (board w)) m))],
                      timers = timers w + 1\<rparr> \<and>
               move_stack (push e (reset e (board w)) m) = [m])) \<and>
         (\<not> is_game_over e (board w) \<longrightarrow>
            (\<exists>m \<in> set (legal_moves e (board w)).
               play_chess e env w =
                 Inr \<lparr>board = push e (board w) m, table = table w,
                      emitted = emitted w @ [move (fen e (push e (board w) m))],
                      timers = timers w + 1\<rparr> \<and>
               move_stack (push e (board w) m) = move_stack (board w) @ [m]))"
proof (cases "is_game_over e (board w)")
  case True
  with assms have ne: "legal_moves e (reset e (board w)) \<noteq> []" by simp
  show ?thesis
  proof (cases "store_ok env")
    case ok: True
    let ?m = "pick (seed env) (legal_moves e (reset e (board w)))"
    have "?m \<in> set (legal_moves e (reset e (board w)))"
      using ne by (rule pick_mem)
    moreover have "play_chess e env w =
                 Inr \<lparr>board = push e (reset e (board w)) ?m,
                      table = table w @ [game_row e env (board w) (table w)],
                      emitted = emitted w @
                        [game_over (snapshot (table w @ [game_row e env (board w) (table w)])),
                         move (fen e (push e (reset e (board w)) ?m))],
                      timers = timers w + 1\<rparr>"
      by (simp add: play_chess_finalizing [OF True ok ne])
    moreover have "move_stack (push e (reset e (board w)) ?m) = [?m]"
      by (simp add: push_def reset_def)
    ultimately show ?thesis using True by blast
  next
    case False
    with True show ?thesis by simp
  qed
next
  case False
  with assms have ne: "legal_moves e (board w) \<noteq> []" by simp
  let ?m = "pick (seed env) (legal_moves e (board w))"
  have "?m \<in> set (legal_moves e (board w))"
    using ne by (rule pick_mem)
  moreover have "play_chess e env w =
                 Inr \<lparr>board = push e (board w) ?m, table = table w,
                      emitted = emitted w @ [move (fen e (push e (board w) ?m))],
                      timers = timers w + 1\<rparr>"
    by (simp add: play_chess_running [OF False ne])
  moreover have "move_stack (push e (board w) ?m) = move_stack (board w) @ [?m]"
    by (simp add: push_def)
  ultimately show ?thesis using False by blast
qed

theorem play_chess_branches_witness:
  "is_game_over fragment (board mated_world) \<and> store_ok (noon True 0) \<and>
   (\<exists>m \<in> set opening_moves.
      play_chess fragment (noon True 0) mated_world =
        Inr \<lparr>board = push fragment (reset fragment mated_board) m,
             table = [game_row fragment (noon True 0) mated_board []],
             emitted =
               [game_over (snapshot [game_row fragment (noon True 0) mated_board []]),
                move (fen fragment (push fragment (reset fragment mated_board) m))],
             timers = 1\<rparr>) \<and>
   \<not> is_game_over fragment (board new_world) \<and>
   (\<exists>m \<in> set opening_moves.
      play_chess fragment (noon True 15) new_world =
        Inr \<lparr>board = push fragment (new_board fragment) m, table = [],
             emitted = [move (fen fragment (push fragment (new_board fragment) m))],
             timers = 1\<rparr>)"
proof -
  have over: "is_game_over fragment (board mated_world)"
    by (simp add: mated_world_def fragment_over)
  have ok: "store_ok (noon True 0)"
    by (simp add: noon_def)
  have running: "\<not> is_game_over fragment (board new_world)"
    by (simp add: new_world_def fragment_new)
  have m1: "legal_moves fragment
      (if is_game_over fragment (board mated_world) then reset fragment (board mated_world)
       else board mated_world) \<noteq> []"
    by (simp add: over fragment_reset opening_ne)
  have m2: "legal_moves fragment
      (if is_game_over fragment (board new_world) then reset fragment (board new_world)
       else board new_world) \<noteq> []"
    using running by (simp add: new_world_def fragment_new opening_ne)
  from play_chess_branches [OF m1, of "noon True 0"] over ok
  have "\<exists>m \<in> set opening_moves.
      play_chess fragment (noon True 0) mated_world =
        Inr \<lparr>board = push fragment (reset fragment mated_board) m,
             table = [game_row fragment (noon True 0) mated_board []],
             emitted =
               [game_over (snapshot [game_row fragment (noon True 0) mated_board []]),
                move (fen fragment (push fragment (reset fragment mated_board) m))],
             timers = 1\<rparr>"
    by (simp add: mated_world_def fragment_reset) blast
  moreover from play_chess_branches [OF m2, of "noon True 15"] running
  have "\<exists>m \<in> set opening_moves.
      play_chess fragment (noon True 15) new_world =
        Inr \<lparr>board = push fragment (new_board fragment) m, table = [],
             emitted = [move (fen fragment (push fragment (new_board fragment) m))],
             timers = 1\<rparr>"
    by (simp add: new_world_def fragment_new) blast
  ultimately show ?thesis using over ok running by simp
qed

text \<open>
  The tick on the board of the fool's mate applies a move: the board it leaves has the
  move \<^verbatim>\<open>g1h3\<close> on its stack, and the tick has emitted a \<^verbatim>\<open>move\<close> event after the
  \<^verbatim>\<open>game_over\<close> event.
\<close>

theorem play_chess_branches_counterexample:
  "is_game_over fragment (board mated_world) \<and>
   (case play_chess fragment (noon True 0) mated_world of
      Inl xw \<Rightarrow> False
    | Inr w' \<Rightarrow>
        move_stack (board w') = [''g1h3''] \<and>
        emitted w' =
          [game_over
             \<lparr>n_games = 1, n_white_wins = 0, n_black_wins = 1, n_draws = 0,
              n_total_moves = 3\<rparr>,
           move ''startpos moves g1h3''])"
proof -
  have "is_game_over fragment (board mated_world)"
    by (simp add: mated_world_def fragment_over)
  then show ?thesis
    by (simp add: mated_tick opening_pick0 uci_def)
qed

subsection \<open>The counters add up\<close>

text \<open>
  C4. Whatever games the recorder is called for, on whatever boards and whether or not
  sqlite accepts each insert, the statistics of the table they leave satisfy
  \<open>n_games = n_white_wins + n_black_wins + n_draws\<close>.
\<close>

theorem get_state_sum:
  "\<exists>s. get_state (record_all e gs []) = Inr s \<and>
        n_games s = n_white_wins s + n_black_wins s + n_draws s"
proof -
  have "list_all categorised (record_all e gs [])"
    by (rule record_all_categorised) simp
  then have "n_games (snapshot (record_all e gs [])) =
      n_white_wins (snapshot (record_all e gs [])) + n_black_wins (snapshot (record_all e gs [])) +
      n_draws (snapshot (record_all e gs []))"
    using categorised_sum [of "record_all e gs []"] by (simp add: snapshot_def)
  then show ?thesis by (simp add: get_state_eq)
qed

theorem get_state_sum_witness:
  "\<exists>s. get_state (record_all fragment [(noon True 0, mated_board), (noon False 0, mated_board),
            (noon True 0, mated_board)] []) = Inr s \<and>
        n_games s = 2 \<and> n_games s = n_white_wins s + n_black_wins s + n_draws s"
proof -
  have "length (record_all fragment [(noon True 0, mated_board), (noon False 0, mated_board),
            (noon True 0, mated_board)] []) = 2"
    by (simp add: record_result_eq noon_def)
  with get_state_sum [of fragment "[(noon True 0, mated_board), (noon False 0, mated_board),
            (noon True 0, mated_board)]"]
  show ?thesis
    by (auto simp: get_state_eq snapshot_def)
qed

subsection \<open>The winner that is recorded\<close>

text \<open>
  C5. In the row that the recorder writes, the winner is NULL exactly when
  \<^verbatim>\<open>is_draw\<close> is 1; in a row that is not a draw the winner is \<^verbatim>\<open>white\<close> or \<^verbatim>\<open>black\<close>;
  and the winner is the side that the result of the board names: \<^verbatim>\<open>white\<close> for
  \<^verbatim>\<open>1-0\<close>, \<^verbatim>\<open>black\<close> for \<^verbatim>\<open>0-1\<close>, none for \<^verbatim>\<open>1/2-1/2\<close>. These are the three
  results that the chess library gives for a board whose game is over.
\<close>

theorem record_result_winner:
  assumes "record_result e env b db = Inr db'"
  shows "db' = db @ [last db'] \<and>
         (winner (last db') = None \<longleftrightarrow> is_draw (last db') = 1) \<and>
         (is_draw (last db') \<noteq> 1 \<longrightarrow>
            winner (last db') = Some ''white'' \<or> winner (last db') = Some ''black'') \<and>
         (result e b = ''1-0'' \<longrightarrow> winner (last db') = Some ''white'') \<and>
         (result e b = ''0-1'' \<longrightarrow> winner (last db') = Some ''black'') \<and>
         (result e b = ''1/2-1/2'' \<longrightarrow> winner (last db') = None \<and> is_draw (last db') = 1)"
proof -
  from assms have "db' = db @ [game_row e env b db]"
    by (simp add: record_result_eq split: if_splits)
  then show ?thesis by (simp add: game_row_def)
qed

theorem record_result_winner_witness:
  "record_result fragment (noon True 0) mated_board [] =
     Inr [game_row fragment (noon True 0) mated_board []] \<and>
   result fragment mated_board = ''0-1'' \<and>
   is_draw (last [game_row fragment (noon True 0) mated_board []]) \<noteq> 1 \<and>
   winner (last [game_row fragment (noon True 0) mated_board []]) = Some ''black''"
proof -
  have rec: "record_result fragment (noon True 0) mated_board [] =
     Inr [game_row fragment (noon True 0) mated_board []]"
    by (simp add: record_result_eq noon_def)
  from record_result_winner [OF rec] rec fragment_result show ?thesis
    by auto
qed

subsection \<open>The board after a tick that finalizes a game\<close>

text \<open>
  C6 (as the code has it). In a tick that finds the game over and completes, the board
  is reset before the move of the tick is selected: the reset board is the board of a new
  game, with the starting position and an empty move stack, however the game before has
  ended. The board that the tick leaves is that board with one of its legal moves pushed:
  Black is to move, the full-move number is 1 and the move stack holds that one move.
\<close>

theorem play_chess_after_reset:
  assumes "is_game_over e (board w)" and "play_chess e env w = Inr w'"
  shows "reset e (board w) = new_board e \<and> move_stack (new_board e) = [] \<and>
         placement (new_board e) = starting e \<and>
         (\<exists>m \<in> set (legal_moves e (new_board e)).
            board w' = push e (new_board e) m \<and>
            board w' =
              \<lparr>placement = moved e (starting e) m, turn = Black, fullmove_number = 1,
               move_stack = [m]\<rparr>)"
proof -
  from play_chess_Inr_over [OF assms]
  have ok: "store_ok env" and ne: "legal_moves e (reset e (board w)) \<noteq> []"
    by simp_all
  let ?m = "pick (seed env) (legal_moves e (new_board e))"
  have "?m \<in> set (legal_moves e (new_board e))"
    using ne by (simp add: reset_new pick_mem)
  moreover have "board w' = push e (new_board e) ?m"
    using assms(2) by (auto simp: play_chess_finalizing [OF assms(1) ok ne] reset_new)
  moreover have "push e (new_board e) ?m =
      \<lparr>placement = moved e (starting e) ?m, turn = Black, fullmove_number = 1,
       move_stack = [?m]\<rparr>"
    by (simp add: push_def new_board_def)
  ultimately show ?thesis
    by (auto simp: reset_new new_board_def)
qed

theorem play_chess_after_reset_witness:
  "is_game_over fragment (board mated_world) \<and>
   (\<exists>w'. play_chess fragment (noon True 15) mated_world = Inr w' \<and>
      (\<exists>m \<in> set (legal_moves fragment (new_board fragment)).
         board w' =
           \<lparr>placement = moved fragment (starting fragment) m, turn = Black,
            fullmove_number = 1, move_stack = [m]\<rparr>))"
proof -
  have over: "is_game_over fragment (board mated_world)"
    by (simp add: mated_world_def fragment_over)
  obtain w' where tick: "play_chess fragment (noon True 15) mated_world = Inr w'"
    by (simp add: mated_tick)
  from play_chess_after_reset [OF over tick]
  have "\<exists>m \<in> set (legal_moves fragment (new_board fragment)).
         board w' =
           \<lparr>placement = moved fragment (starting fragment) m, turn = Black,
            fullmove_number = 1, move_stack = [m]\<rparr>"
    by blast
  with over tick show ?thesis
    by blast
qed

text \<open>
  After the tick on the board of the fool's mate, with the random source selecting
  \<^verbatim>\<open>e2e4\<close>, the move stack is not empty and the position is not the starting position.
\<close>

theorem play_chess_after_reset_counterexample:
  "is_game_over fragment (board mated_world) \<and>
   (case play_chess fragment (noon True 15) mated_world of
      Inl xw \<Rightarrow> False
    | Inr w' \<Rightarrow>
        board w' =
          \<lparr>placement = [''e2e4''], turn = Black, fullmove_number = 1,
           move_stack = [''e2e4'']\<rparr> \<and>
        move_stack (board w') \<noteq> [] \<and> placement (board w') \<noteq> starting fragment)"
proof -
  have over: "is_game_over fragment (board mated_world)"
    by (simp add: mated_world_def fragment_over)
  have start: "starting fragment = []"
    by (simp add: fragment_def)
  show ?thesis
    by (simp add: over mated_tick opening_pick15 start)
qed

subsection \<open>The move that is pushed is legal\<close>

text \<open>
  C7. Take from the rules of chess that a board whose game is not over has a legal move,
  and that the starting position has one. Then the list of legal moves that a tick
  consults, on the board as it is or as it has just been reset, is not empty; the index
  that \<^verbatim>\<open>randint\<close> returns is within the list, so the subscript does not raise; and the
  move pushed is a member of the list. The only exception that can leave a tick is the
  one of a refused insert, which is raised before any move is selected.
\<close>

theorem play_chess_move_legal:
  assumes "\<not> is_game_over e (board w) \<longrightarrow> legal_moves e (board w) \<noteq> []"
    and "legal_moves e (reset e (board w)) \<noteq> []"
  shows "case play_chess e env w of
           Inl (x, w1) \<Rightarrow> x = StorageError \<and> is_game_over e (board w) \<and> \<not> store_ok env \<and> w1 = w
         | Inr w' \<Rightarrow>
             (let b1 = (if is_game_over e (board w) then reset e (board w) else board w);
                  moves = legal_moves e b1
              in moves \<noteq> [] \<and>
                 (\<exists>i < length moves.
                    randint (seed env) 0 (int (length moves) - 1) = Inr (int i) \<and>
                    getitem moves (int i) = Inr (moves ! i) \<and>
                    moves ! i \<in> set moves \<and>
                    board w' = push e b1 (moves ! i)))"
proof (cases "is_game_over e (board w)")
  case over: True
  show ?thesis
  proof (cases "store_ok env")
    case True
    let ?ms = "legal_moves e (reset e (board w))"
    let ?i = "seed env mod length ?ms"
    have "?i < length ?ms"
      using assms(2) by simp
    moreover have "randint (seed env) 0 (int (length ?ms) - 1) = Inr (int ?i)"
      using assms(2) by (rule randint_in_range)
    ultimately have "\<exists>i < length ?ms.
        randint (seed env) 0 (int (length ?ms) - 1) = Inr (int i) \<and>
        getitem ?ms (int i) = Inr (?ms ! i) \<and> ?ms ! i \<in> set ?ms \<and>
        push e (reset e (board w)) (pick (seed env) ?ms) = push e (reset e (board w)) (?ms ! i)"
      by (intro exI [of _ ?i]) (simp add: getitem_in_range pick_def)
    then show ?thesis
      using assms(2) over
      by (simp add: play_chess_finalizing [OF over True assms(2)])
  next
    case False
    then show ?thesis
      by (simp add: play_chess_refused [OF over False] over)
  qed
next
  case running: False
  with assms(1) have ne: "legal_moves e (board w) \<noteq> []" by simp
  let ?ms = "legal_moves e (board w)"
  let ?i = "seed env mod length ?ms"
  have "?i < length ?ms"
    using ne by simp
  moreover have "randint (seed env) 0 (int (length ?ms) - 1) = Inr (int ?i)"
    using ne by (rule randint_in_range)
  ultimately have "\<exists>i < length ?ms.
      randint (seed env) 0 (int (length ?ms) - 1) = Inr (int i) \<and>
      getitem ?ms (int i) = Inr (?ms ! i) \<and> ?ms ! i \<in> set ?ms \<and>
      push e (board w) (pick (seed env) ?ms) = push e (board w) (?ms ! i)"
    by (intro exI [of _ ?i]) (simp add: getitem_in_range pick_def)
  then show ?thesis
    using ne running
    by (simp add: play_chess_running [OF running ne])
qed

theorem play_chess_move_legal_witness:
  "is_game_over fragment (board mated_world) \<and>
   legal_moves fragment (reset fragment (board mated_world)) \<noteq> [] \<and>
   (\<exists>w'. play_chess fragment (noon True 26) mated_world = Inr w' \<and>
      (\<exists>i < length opening_moves.
         randint 26 0 (int (length opening_moves) - 1) = Inr (int i) \<and>
         opening_moves ! i \<in> set opening_moves \<and>
         board w' = push fragment (reset fragment mated_board) (opening_moves ! i)))"
proof -
  have over: "is_game_over fragment (board mated_world)"
    by (simp add: mated_world_def fragment_over)
  have h1: "\<not> is_game_over fragment (board mated_world) \<longrightarrow>
      legal_moves fragment (board mated_world) \<noteq> []"
    using over by simp
  have h2: "legal_moves fragment (reset fragment (board mated_world)) \<noteq> []"
    by (simp add: fragment_reset opening_ne)
  obtain w' where tick: "play_chess fragment (noon True 26) mated_world = Inr w'"
    by (simp add: mated_tick)
  have s: "seed (noon True 26) = 26" and b: "board mated_world = mated_board"
    by (simp_all add: noon_def mated_world_def)
  from play_chess_move_legal [OF h1 h2, of "noon True 26"]
  have "\<exists>i < length opening_moves.
         randint 26 0 (int (length opening_moves) - 1) = Inr (int i) \<and>
         opening_moves ! i \<in> set opening_moves \<and>
         board w' = push fragment (reset fragment mated_board) (opening_moves ! i)"
    unfolding tick by (simp add: fragment_over fragment_reset s b Let_def) blast
  with over h2 tick show ?thesis
    by blast
qed

subsection \<open>The statistics in the event of a finished game\<close>

text \<open>
  C8. In a tick that finds the game over and completes, the row of the game is in the
  table before the \<^verbatim>\<open>game_over\<close> event is emitted, and the statistics in the event are
  those of the table with that row: against the statistics before the tick, the number
  of games is greater by 1, the total of the moves by the \<^verbatim>\<open>n_moves\<close> of the row, and
  the counter of the category of the game (wins of White, of Black, draws) by 1, the
  two others being unchanged.
\<close>

theorem play_chess_game_over_event:
  assumes "is_game_over e (board w)" and "play_chess e env w = Inr w'"
  shows "\<exists>row s0 s1.
           table w' = table w @ [row] \<and>
           get_state (table w) = Inr s0 \<and> get_state (table w') = Inr s1 \<and>
           emitted w' = emitted w @ [game_over s1, move (fen e (board w'))] \<and>
           n_games s1 = n_games s0 + 1 \<and>
           n_total_moves s1 = n_total_moves s0 + fullmove_number (board w) \<and>
           (result e (board w) = ''1-0'' \<longrightarrow>
              n_white_wins s1 = n_white_wins s0 + 1 \<and> n_black_wins s1 = n_black_wins s0 \<and>
              n_draws s1 = n_draws s0) \<and>
           (result e (board w) = ''1/2-1/2'' \<longrightarrow>
              n_white_wins s1 = n_white_wins s0 \<and> n_black_wins s1 = n_black_wins s0 \<and>
              n_draws s1 = n_draws s0 + 1) \<and>
           (result e (board w) \<noteq> ''1-0'' \<and> result e (board w) \<noteq> ''1/2-1/2'' \<longrightarrow>
              n_white_wins s1 = n_white_wins s0 \<and> n_black_wins s1 = n_black_wins s0 + 1 \<and>
              n_draws s1 = n_draws s0)"
proof -
  from play_chess_Inr_over [OF assms]
  have ok: "store_ok env" and ne: "legal_moves e (reset e (board w)) \<noteq> []"
    by simp_all
  let ?row = "game_row e env (board w) (table w)"
  have w': "w' = w\<lparr>table := table w @ [?row],
            emitted := emitted w @
              [game_over (snapshot (table w @ [?row])),
               move (fen e (push e (reset e (board w))
                       (pick (seed env) (legal_moves e (reset e (board w))))))],
            board := push e (reset e (board w))
                       (pick (seed env) (legal_moves e (reset e (board w)))),
            timers := timers w + 1\<rparr>"
    using assms(2) by (simp add: play_chess_finalizing [OF assms(1) ok ne])
  have "table w' = table w @ [?row]"
    by (simp add: w')
  moreover have "emitted w' = emitted w @ [game_over (snapshot (table w')), move (fen e (board w'))]"
    by (simp add: w')
  moreover have "n_games (snapshot (table w @ [?row])) = n_games (snapshot (table w)) + 1"
    by (simp add: snapshot_def)
  moreover have "n_total_moves (snapshot (table w @ [?row])) =
      n_total_moves (snapshot (table w)) + fullmove_number (board w)"
    by (simp add: snapshot_def game_row_def)
  moreover have "result e (board w) = ''1-0'' \<longrightarrow>
      n_white_wins (snapshot (table w @ [?row])) = n_white_wins (snapshot (table w)) + 1 \<and>
      n_black_wins (snapshot (table w @ [?row])) = n_black_wins (snapshot (table w)) \<and>
      n_draws (snapshot (table w @ [?row])) = n_draws (snapshot (table w))"
    by (simp add: snapshot_def game_row_def)
  moreover have "result e (board w) = ''1/2-1/2'' \<longrightarrow>
      n_white_wins (snapshot (table w @ [?row])) = n_white_wins (snapshot (table w)) \<and>
      n_black_wins (snapshot (table w @ [?row])) = n_black_wins (snapshot (table w)) \<and>
      n_draws (snapshot (table w @ [?row])) = n_draws (snapshot (table w)) + 1"
    by (simp add: snapshot_def game_row_def)
  moreover have "result e (board w) \<noteq> ''1-0'' \<and> result e (board w) \<noteq> ''1/2-1/2'' \<longrightarrow>
      n_white_wins (snapshot (table w @ [?row])) = n_white_wins (snapshot (table w)) \<and>
      n_black_wins (snapshot (table w @ [?row])) = n_black_wins (snapshot (table w)) + 1 \<and>
      n_draws (snapshot (table w @ [?row])) = n_draws (snapshot (table w))"
    by (simp add: snapshot_def game_row_def)
  ultimately show ?thesis
    by (intro exI [of _ ?row] exI [of _ "snapshot (table w)"]
        exI [of _ "snapshot (table w @ [?row])"]) (simp add: get_state_eq)
qed

theorem play_chess_game_over_event_witness:
  "is_game_over fragment (board mated_world) \<and>
   (\<exists>w' row s0 s1. play_chess fragment (noon True 2) mated_world = Inr w' \<and>
      table w' = table mated_world @ [row] \<and>
      get_state (table mated_world) = Inr s0 \<and> get_state (table w') = Inr s1 \<and>
      emitted w' = emitted mated_world @ [game_over s1, move (fen fragment (board w'))] \<and>
      n_games s1 = n_games s0 + 1 \<and> n_black_wins s1 = n_black_wins s0 + 1)"
proof -
  have over: "is_game_over fragment (board mated_world)"
    by (simp add: mated_world_def fragment_over)
  obtain w' where tick: "play_chess fragment (noon True 2) mated_world = Inr w'"
    by (simp add: mated_tick)
  have res: "result fragment (board mated_world) \<noteq> ''1-0'' \<and>
      result fragment (board mated_world) \<noteq> ''1/2-1/2''"
    by (simp add: mated_world_def fragment_result)
  from play_chess_game_over_event [OF over tick] res
  have "\<exists>row s0 s1. table w' = table mated_world @ [row] \<and>
      get_state (table mated_world) = Inr s0 \<and> get_state (table w') = Inr s1 \<and>
      emitted w' = emitted mated_world @ [game_over s1, move (fen fragment (board w'))] \<and>
      n_games s1 = n_games s0 + 1 \<and> n_black_wins s1 = n_black_wins s0 + 1"
    by blast
  with over tick show ?thesis
    by blast
qed

subsection \<open>The selection of the move\<close>

text \<open>
  C9. With the random source's state \<open>r\<close> less than the number of legal moves of a board
  whose game is not over, the tick pushes the legal move at index \<open>r\<close>. The chess
  library lists a legal move once; so each legal move is the one pushed for exactly one
  \<open>r\<close> below the number of legal moves.
\<close>

theorem play_chess_selects_nth:
  assumes "\<not> is_game_over e (board w)" and "r < length (legal_moves e (board w))"
  shows "(\<exists>w'. play_chess e (env\<lparr>seed := r\<rparr>) w = Inr w' \<and>
            board w' = push e (board w) (legal_moves e (board w) ! r) \<and>
            last (move_stack (board w')) = legal_moves e (board w) ! r) \<and>
         (distinct (legal_moves e (board w)) \<longrightarrow>
            (\<forall>m \<in> set (legal_moves e (board w)).
               \<exists>!k. k < length (legal_moves e (board w)) \<and>
                 (\<exists>w'. play_chess e (env\<lparr>seed := k\<rparr>) w = Inr w' \<and>
                    last (move_stack (board w')) = m)))"
proof -
  let ?ms = "legal_moves e (board w)"
  have ne: "?ms \<noteq> []"
    using assms(2) by auto
  have sel: "play_chess e (env\<lparr>seed := k\<rparr>) w = Inr w' \<longleftrightarrow>
      w' = w\<lparr>board := push e (board w) (?ms ! k),
             emitted := emitted w @ [move (fen e (push e (board w) (?ms ! k)))],
             timers := timers w + 1\<rparr>" if "k < length ?ms" for k w'
    using that by (auto simp: play_chess_running [OF assms(1) ne] pick_def)
  have last: "(\<exists>w'. play_chess e (env\<lparr>seed := k\<rparr>) w = Inr w' \<and>
      last (move_stack (board w')) = m) \<longleftrightarrow> ?ms ! k = m" if "k < length ?ms" for k m
    by (simp add: sel [OF that] push_def)
  have first: "\<exists>w'. play_chess e (env\<lparr>seed := r\<rparr>) w = Inr w' \<and>
            board w' = push e (board w) (?ms ! r) \<and>
            last (move_stack (board w')) = ?ms ! r"
    by (simp add: sel [OF assms(2)] push_def)
  have second: "\<exists>!k. k < length ?ms \<and>
      (\<exists>w'. play_chess e (env\<lparr>seed := k\<rparr>) w = Inr w' \<and> last (move_stack (board w')) = m)"
    if d: "distinct ?ms" and m: "m \<in> set ?ms" for m
  proof -
    from m obtain k where k: "k < length ?ms" "?ms ! k = m"
      by (auto simp: in_set_conv_nth)
    show ?thesis
    proof (rule ex1I [of _ k])
      show "k < length ?ms \<and>
        (\<exists>w'. play_chess e (env\<lparr>seed := k\<rparr>) w = Inr w' \<and> last (move_stack (board w')) = m)"
        using k last by simp
    next
      fix j
      assume j: "j < length ?ms \<and>
        (\<exists>w'. play_chess e (env\<lparr>seed := j\<rparr>) w = Inr w' \<and> last (move_stack (board w')) = m)"
      then have jl: "j < length ?ms"
        by simp
      from j last [OF jl, of m] have "?ms ! j = m"
        by simp
      with k have "?ms ! j = ?ms ! k"
        by simp
      with jl k(1) d show "j = k"
        by (simp add: nth_eq_iff_index_eq)
    qed
  qed
  from first second show ?thesis by blast
qed

theorem play_chess_selects_nth_witness:
  "\<not> is_game_over fragment (board new_world) \<and>
   15 < length (legal_moves fragment (board new_world)) \<and>
   distinct (legal_moves fragment (board new_world)) \<and>
   ''e2e4'' \<in> set (legal_moves fragment (board new_world)) \<and>
   (\<exists>w'. play_chess fragment (noon True 15) new_world = Inr w' \<and>
      last (move_stack (board w')) = ''e2e4'') \<and>
   (\<exists>!k. k < 20 \<and>
      (\<exists>w'. play_chess fragment (noon True k) new_world = Inr w' \<and>
         last (move_stack (board w')) = ''e2e4''))"
proof -
  have ms: "legal_moves fragment (board new_world) = opening_moves"
    by (simp add: new_world_def fragment_new)
  have running: "\<not> is_game_over fragment (board new_world)"
    by (simp add: new_world_def fragment_new)
  have r: "15 < length (legal_moves fragment (board new_world))"
    by (simp add: ms opening_distinct)
  have d: "distinct (legal_moves fragment (board new_world))"
    by (simp add: ms opening_distinct)
  have m: "''e2e4'' \<in> set (legal_moves fragment (board new_world))"
    by (simp add: ms opening_moves_def)
  note sel = play_chess_selects_nth [OF running r, of "noon True 0"]
  from sel obtain w' where
    "play_chess fragment ((noon True 0)\<lparr>seed := 15\<rparr>) new_world = Inr w'" and
    "last (move_stack (board w')) = legal_moves fragment (board new_world) ! 15"
    by (elim conjE exE)
  then have "\<exists>w'. play_chess fragment ((noon True 0)\<lparr>seed := 15\<rparr>) new_world = Inr w' \<and>
      last (move_stack (board w')) = legal_moves fragment (board new_world) ! 15"
    by (intro exI conjI)
  then have a: "\<exists>w'. play_chess fragment (noon True 15) new_world = Inr w' \<and>
      last (move_stack (board w')) = ''e2e4''"
    by (simp only: noon_seed ms opening_nth15)
  from sel have "distinct (legal_moves fragment (board new_world)) \<longrightarrow>
      (\<forall>m \<in> set (legal_moves fragment (board new_world)).
         \<exists>!k. k < length (legal_moves fragment (board new_world)) \<and>
           (\<exists>w'. play_chess fragment ((noon True 0)\<lparr>seed := k\<rparr>) new_world = Inr w' \<and>
              last (move_stack (board w')) = m))"
    by (rule conjunct2)
  with d m have "\<exists>!k. k < length (legal_moves fragment (board new_world)) \<and>
           (\<exists>w'. play_chess fragment ((noon True 0)\<lparr>seed := k\<rparr>) new_world = Inr w' \<and>
              last (move_stack (board w')) = ''e2e4'')"
    by (rule_tac bspec [OF mp])
  then have b: "\<exists>!k. k < 20 \<and>
      (\<exists>w'. play_chess fragment (noon True k) new_world = Inr w' \<and>
         last (move_stack (board w')) = ''e2e4'')"
    by (simp only: noon_seed ms opening_distinct)
  from running r d m a b show ?thesis
    by (intro conjI)
qed

subsection \<open>The statistics of an empty table\<close>

text \<open>
  C10. On an empty table \<^verbatim>\<open>get_state\<close> succeeds and every counter is 0: the number of
  games, of wins of White, of wins of Black, of draws, and the total of the moves, which
  \<^verbatim>\<open>TOTAL\<close> gives as 0 and not as NULL.
\<close>

theorem get_state_empty:
  "get_state [] =
     Inr \<lparr>n_games = 0, n_white_wins = 0, n_black_wins = 0, n_draws = 0, n_total_moves = 0\<rparr>"
  by (simp add: get_state_def get_n_of_games_def get_n_white_wins_def get_n_black_wins_def
      get_n_draws_def get_total_moves_def select_count_def select_total_def query_db_def
      item0_def py_int_def bind_def)

end
